theory Spec2Isabelle
  imports Complex_Main
begin

section \<open>Driver of the 2-D compressible (ALA) convection tutorial\<close>

text \<open>
  The script \<^verbatim>\<open>2d_compressible_ALA.py\<close> sets up a finite-element problem and then
  runs one time loop. The finite-element library is not part of the script: its solvers,
  the timestep adaptor, the diagnostics and the quadrature are taken as parameters (the
  record \<open>collaborators\<close>), and the script's own control flow and assignments are
  embedded as written. A discrete field is its vector of nodal values. Python floats are
  read as real numbers, except in the one sum whose rounding decides a property of the
  loop: \<^verbatim>\<open>time += dt\<close> is rounded to the nearest double.
\<close>

subsection \<open>Fields\<close>

type_synonym field = "real list"

text \<open>\<^verbatim>\<open>T + Tbar\<close> and \<^verbatim>\<open>T - energy_solver.T_old\<close>: node by node, on one function space.\<close>

definition field_add :: "field \<Rightarrow> field \<Rightarrow> field" where
  "field_add f g = map2 (+) f g"

definition field_sub :: "field \<Rightarrow> field \<Rightarrow> field" where
  "field_sub f g = map2 (-) f g"

subsection \<open>The sum of two floats\<close>

text \<open>
  A Python float is an IEEE 754 double: 53 significant bits, smallest normal exponent
  -1022, and below it the fixed spacing \<open>2 ^ -1074\<close>. The sum of two floats is the exact
  sum rounded to the nearest double, a tie going to the even neighbour. Sums beyond the
  largest double, which the machine turns into \<^verbatim>\<open>inf\<close>, are rounded here as if the
  exponent had no upper end.
\<close>

definition rne :: "real \<Rightarrow> int" where
  "rne y =
     (if y - of_int \<lfloor>y\<rfloor> < 1 / 2 then \<lfloor>y\<rfloor>
      else if 1 / 2 < y - of_int \<lfloor>y\<rfloor> then \<lfloor>y\<rfloor> + 1
      else if even \<lfloor>y\<rfloor> then \<lfloor>y\<rfloor> else \<lfloor>y\<rfloor> + 1)"

definition pow2 :: "int \<Rightarrow> real" where
  "pow2 k = 2 powr real_of_int k"

text \<open>The distance between neighbouring doubles at the magnitude of \<open>x\<close>.\<close>

definition spacing :: "real \<Rightarrow> real" where
  "spacing x = pow2 (max \<lfloor>log 2 \<bar>x\<bar>\<rfloor> (- 1022) - 52)"

definition round_double :: "real \<Rightarrow> real" where
  "round_double x =
     (if x = 0 then 0 else sgn x * (of_int (rne (\<bar>x\<bar> / spacing x)) * spacing x))"

definition float_add :: "real \<Rightarrow> real \<Rightarrow> real" where
  "float_add a b = round_double (a + b)"

text \<open>The values a float can hold: a significand below \<open>2 ^ 53\<close> at a spacing of at least \<open>2 ^ -1074\<close>.\<close>

definition is_double :: "real \<Rightarrow> bool" where
  "is_double t \<longleftrightarrow> (\<exists>m k. t = of_int m * pow2 k \<and> \<bar>m\<bar> < 2 ^ 53 \<and> - 1074 \<le> k)"

subsection \<open>Errors, log lines, checkpoint\<close>

datatype error = SolverDivergence

record log_row =
  row_timestep :: nat
  row_time :: real
  row_dt :: real
  row_maxchange :: real
  row_u_rms :: real
  row_u_rms_surf :: real
  row_ux_max :: real
  row_nu_base :: real
  row_nu_top :: real
  row_energy :: real
  row_avg_t :: real
  row_rate_work_g :: real
  row_rate_viscous :: real
  row_energy_2 :: real

text \<open>What \<^verbatim>\<open>plog.log_str\<close> receives: the literal header, or one formatted row.\<close>

datatype log_line = Header string | Row log_row

record mesh_descr =
  nx :: nat
  ny :: nat
  quadrilateral :: bool
  cartesian :: bool

record checkpoint =
  saved_mesh :: mesh_descr
  saved_functions :: "(string \<times> field) list"

subsection \<open>What the script is given\<close>

text \<open>
  The objects built from the library before the loop. A solve either fails with
  \<open>SolverDivergence\<close> or returns the field it has written.
  \<^item> \<open>update_timestep d z\<close>: \<^verbatim>\<open>t_adapt.update_timestep()\<close> with \<^verbatim>\<open>delta_t\<close> holding \<open>d\<close>
    and the velocity in \<open>z\<close>; it gives the returned value and the new content of
    \<^verbatim>\<open>delta_t\<close>, the constant the adaptor was built on.
  \<^item> \<open>stokes_solve z T\<close>: \<^verbatim>\<open>stokes_solver.solve()\<close>, the new \<^verbatim>\<open>z\<close>.
  \<^item> \<open>energy_solve d T z\<close>: \<^verbatim>\<open>energy_solver.solve()\<close>, the new \<^verbatim>\<open>T\<close> and the solver's
    \<^verbatim>\<open>T_old\<close>.
  \<^item> the six diagnostics of \<^verbatim>\<open>gd = GeodynamicalDiagnostics(z, FullT, ...)\<close> read the two
    functions \<^verbatim>\<open>gd\<close> was built on, \<^verbatim>\<open>z\<close> and \<^verbatim>\<open>FullT\<close>.
  \<^item> \<open>work_against_gravity z T\<close> and \<open>viscous_dissipation z\<close>: the two assembled integrals.
  \<^item> \<open>assemble_sq f\<close>: \<^verbatim>\<open>assemble(f**2 * dx)\<close>.
\<close>

record collaborators =
  update_timestep :: "real \<Rightarrow> field \<Rightarrow> real \<times> real"
  stokes_solve :: "field \<Rightarrow> field \<Rightarrow> error + field"
  energy_solve :: "real \<Rightarrow> field \<Rightarrow> field \<Rightarrow> error + field \<times> field"
  u_rms :: "field \<Rightarrow> field \<Rightarrow> real"
  u_rms_top :: "field \<Rightarrow> field \<Rightarrow> real"
  ux_max :: "field \<Rightarrow> field \<Rightarrow> real"
  Nu_bottom :: "field \<Rightarrow> field \<Rightarrow> real"
  Nu_top :: "field \<Rightarrow> field \<Rightarrow> real"
  T_avg :: "field \<Rightarrow> field \<Rightarrow> real"
  work_against_gravity :: "field \<Rightarrow> field \<Rightarrow> real"
  viscous_dissipation :: "field \<Rightarrow> real"
  assemble_sq :: "field \<Rightarrow> real"

text \<open>The mesh, the interpolated reference state and the initial fields.\<close>

record problem =
  mesh :: mesh_descr
  rhobar :: field
  Tbar :: field
  alphabar :: field
  cpbar :: field
  chibar :: field
  T_init :: field
  z_init :: field

subsection \<open>The mutable state of the script\<close>

record state =
  time :: real
  delta_t :: real
  z_fld :: field
  T_fld :: field
  FullT :: field
  plog :: "log_line list"
  plog_closed :: bool
  output_file :: "(field \<times> field \<times> field) list"
  ref_file :: "(field \<times> field \<times> field \<times> field \<times> field) list"
  final_checkpoint :: "checkpoint option"

definition output_frequency :: nat where
  "output_frequency = 50"

definition timesteps :: nat where
  "timesteps = 20000"

definition steady_state_tolerance :: real where
  "steady_state_tolerance = 1 / 10 ^ 9"

definition header :: string where
  "header = ''timestep time dt maxchange u_rms u_rms_surf ux_max nu_base '' @
            ''nu_top energy avg_t rate_work_g rate_viscous energy_2''"

text \<open>Lines 152 to 200: the state when the loop is entered.\<close>

definition initial :: "problem \<Rightarrow> state" where
  "initial su =
     \<lparr> time = 0, delta_t = 1 / 10 ^ 6,
       z_fld = z_init su, T_fld = T_init su,
       FullT = field_add (T_init su) (Tbar su),
       plog = [Header header], plog_closed = False,
       output_file = [], ref_file = [], final_checkpoint = None \<rparr>"

subsection \<open>One pass through the loop body\<close>

datatype step_result = Raised error state | Continue state | Break state

definition write_output :: "problem \<Rightarrow> nat \<Rightarrow> state \<Rightarrow> state" where
  "write_output su timestep s =
     (if timestep mod output_frequency = 0
      then s\<lparr> output_file := output_file s @ [(z_fld s, T_fld s, FullT s)],
              ref_file := ref_file s @ [(rhobar su, Tbar su, alphabar su, cpbar su, chibar su)] \<rparr>
      else s)"

text \<open>Lines 233 to 247: the row logged after both solves, in the order of the f-string.\<close>

definition diagnostics :: "collaborators \<Rightarrow> nat \<Rightarrow> field \<Rightarrow> state \<Rightarrow> log_row" where
  "diagnostics env timestep T_old s =
     (let energy_conservation =
            \<bar>\<bar>Nu_top env (z_fld s) (FullT s)\<bar> - \<bar>Nu_bottom env (z_fld s) (FullT s)\<bar>\<bar>;
          rate_work_against_gravity = work_against_gravity env (z_fld s) (T_fld s);
          rate_viscous_dissipation = viscous_dissipation env (z_fld s);
          energy_conservation_2 = \<bar>rate_work_against_gravity - rate_viscous_dissipation\<bar>;
          maxchange = sqrt (assemble_sq env (field_sub (T_fld s) T_old))
      in \<lparr> row_timestep = timestep, row_time = time s, row_dt = delta_t s,
           row_maxchange = maxchange,
           row_u_rms = u_rms env (z_fld s) (FullT s),
           row_u_rms_surf = u_rms_top env (z_fld s) (FullT s),
           row_ux_max = ux_max env (z_fld s) (FullT s),
           row_nu_base = Nu_bottom env (z_fld s) (FullT s),
           row_nu_top = Nu_top env (z_fld s) (FullT s),
           row_energy = energy_conservation,
           row_avg_t = T_avg env (z_fld s) (FullT s),
           row_rate_work_g = rate_work_against_gravity,
           row_rate_viscous = rate_viscous_dissipation,
           row_energy_2 = energy_conservation_2 \<rparr>)"

text \<open>
  Lines 219 to 255. An exception of a solver leaves the loop at once, with the state as
  it is then; \<^verbatim>\<open>break\<close> and the normal end of the body are the other two results.
\<close>

definition iteration :: "collaborators \<Rightarrow> problem \<Rightarrow> real \<Rightarrow> nat \<Rightarrow> state \<Rightarrow> step_result" where
  "iteration env su tol timestep s =
     (let s1 = write_output su timestep s;
          (dt, d') = update_timestep env (delta_t s1) (z_fld s1);
          s2 = s1\<lparr> delta_t := d', time := float_add (time s1) dt \<rparr>
      in case stokes_solve env (z_fld s2) (T_fld s2) of
           Inl e \<Rightarrow> Raised e s2
         | Inr z' \<Rightarrow>
             (let s3 = s2\<lparr> z_fld := z' \<rparr>
              in case energy_solve env (delta_t s3) (T_fld s3) (z_fld s3) of
                   Inl e \<Rightarrow> Raised e s3
                 | Inr (T', T_old) \<Rightarrow>
                     (let s4 = s3\<lparr> T_fld := T' \<rparr>;
                          row = diagnostics env timestep T_old s4;
                          s5 = s4\<lparr> plog := plog s4 @ [Row row] \<rparr>;
                          s6 = s5\<lparr> FullT := field_add (T_fld s5) (Tbar su) \<rparr>
                      in if row_maxchange row < tol then Break s6 else Continue s6)))"

text \<open>
  The state in which the diagnostics are computed (line 233), when both solves have
  returned \<open>z'\<close> and \<open>T'\<close>: a name for the state \<open>s4\<close> of \<open>iteration\<close>.
\<close>

definition after_solves :: "collaborators \<Rightarrow> problem \<Rightarrow> nat \<Rightarrow> state \<Rightarrow> field \<Rightarrow> field \<Rightarrow> state" where
  "after_solves env su timestep s z' T' =
     (write_output su timestep s)
       \<lparr> delta_t := snd (update_timestep env (delta_t s) (z_fld s)),
         time := float_add (time s) (fst (update_timestep env (delta_t s) (z_fld s))),
         z_fld := z', T_fld := T' \<rparr>"

subsection \<open>The loop and the end of the script\<close>

datatype outcome = CONVERGED | MAX_STEPS_REACHED | DIVERGED

text \<open>
  \<^verbatim>\<open>for timestep in range(0, timesteps)\<close>, entered at \<open>timestep\<close>. The result is the way
  the loop was left, the number of passes that reached their end, and the state.
\<close>

function time_loop ::
  "collaborators \<Rightarrow> problem \<Rightarrow> real \<Rightarrow> nat \<Rightarrow> nat \<Rightarrow> state \<Rightarrow> outcome \<times> nat \<times> state" where
  "time_loop env su tol n timestep s =
     (if timestep < n then
        (case iteration env su tol timestep s of
           Raised e s' \<Rightarrow> (DIVERGED, timestep, s')
         | Break s' \<Rightarrow> (CONVERGED, Suc timestep, s')
         | Continue s' \<Rightarrow> time_loop env su tol n (Suc timestep) s')
      else (MAX_STEPS_REACHED, timestep, s))"
  by pat_completeness auto
termination
  by (relation "measure (\<lambda>(env, su, tol, n, timestep, s). n - timestep)") auto

declare time_loop.simps [simp del]

text \<open>Lines 262 to 267, reached only when the loop ends without an exception.\<close>

definition finish :: "problem \<Rightarrow> state \<Rightarrow> state" where
  "finish su s =
     s\<lparr> plog_closed := True,
        final_checkpoint :=
          Some \<lparr> saved_mesh = mesh su,
                 saved_functions = [(''Temperature'', T_fld s), (''Stokes'', z_fld s)] \<rparr> \<rparr>"

definition simulation :: "collaborators \<Rightarrow> problem \<Rightarrow> nat \<Rightarrow> real \<Rightarrow> outcome \<times> nat \<times> state" where
  "simulation env su n tol =
     (case time_loop env su tol n 0 (initial su) of
        (DIVERGED, k, s) \<Rightarrow> (DIVERGED, k, s)
      | (oc, k, s) \<Rightarrow> (oc, k, finish su s))"

text \<open>
  The states at the end of the passes that run to their end, in order: the observation
  points between two passes of \<open>time_loop\<close>.
\<close>

function passes ::
  "collaborators \<Rightarrow> problem \<Rightarrow> real \<Rightarrow> nat \<Rightarrow> nat \<Rightarrow> state \<Rightarrow> state list" where
  "passes env su tol n timestep s =
     (if timestep < n then
        (case iteration env su tol timestep s of
           Raised e s' \<Rightarrow> []
         | Break s' \<Rightarrow> [s']
         | Continue s' \<Rightarrow> s' # passes env su tol n (Suc timestep) s')
      else [])"
  by pat_completeness auto
termination
  by (relation "measure (\<lambda>(env, su, tol, n, timestep, s). n - timestep)") auto

declare passes.simps [simp del]

definition observed :: "collaborators \<Rightarrow> problem \<Rightarrow> real \<Rightarrow> nat \<Rightarrow> state list" where
  "observed env su tol n = initial su # passes env su tol n 0 (initial su)"

subsection \<open>The timestep adaptor\<close>

text \<open>Line 155: \<^verbatim>\<open>TimestepAdaptor(delta_t, u, V, maximum_timestep=0.1, increase_tolerance=1.5)\<close>.\<close>

record timestep_adaptor =
  maximum_timestep :: real
  increase_tolerance :: real

definition t_adapt :: timestep_adaptor where
  "t_adapt = \<lparr> maximum_timestep = 1 / 10, increase_tolerance = 3 / 2 \<rparr>"

text \<open>
  Modelled from the spec: the body of \<^verbatim>\<open>TimestepAdaptor.update_timestep\<close> is library code
  that the script only calls. The specification gives its result as
  \<^verbatim>\<open>dt = min(maximum_timestep, growth_factor * previous_dt, cfl_bound)\<close>, and the previous
  step's value where the CFL bound is undefined (a velocity of zero).
\<close>

definition update_timestep_spec :: "timestep_adaptor \<Rightarrow> real \<Rightarrow> real option \<Rightarrow> real" where
  "update_timestep_spec a previous_dt cfl_bound =
     (case cfl_bound of
        None \<Rightarrow> previous_dt
      | Some c \<Rightarrow> min (maximum_timestep a) (min (increase_tolerance a * previous_dt) c))"

text \<open>
  Modelled from the spec: successive calls, each starting from the value the call before
  it returned (\<open>current_dt\<close> is recomputed in each pass), with the CFL bound of each call.
\<close>

fun adapted :: "timestep_adaptor \<Rightarrow> real \<Rightarrow> real option list \<Rightarrow> real list" where
  "adapted a d [] = []"
| "adapted a d (c # cs) = update_timestep_spec a d c # adapted a (update_timestep_spec a d c) cs"

text \<open>
  Modelled from the spec: the adaptor object of line 155 as a collaborator, with \<open>cfl\<close>
  the CFL bound that the library derives from the velocity. The value it returns is the
  new content of \<^verbatim>\<open>delta_t\<close>, the previous value of the next call.
\<close>

definition adaptor_of :: "(field \<Rightarrow> real option) \<Rightarrow> real \<Rightarrow> field \<Rightarrow> real \<times> real" where
  "adaptor_of cfl d z =
     (update_timestep_spec t_adapt d (cfl z), update_timestep_spec t_adapt d (cfl z))"

subsection \<open>Test collaborators\<close>

text \<open>
  Small collaborators on which the script can be run by hand. The adaptor is the modelled
  one, with no CFL bound; the L2 norm is the sum of squares of the nodal values; the
  diagnostic \<open>Nu_top\<close> is the first nodal value of the temperature it reads, the other
  diagnostics are zero.
\<close>

definition still_env :: collaborators where
  "still_env =
     \<lparr> update_timestep = (\<lambda>d z. (update_timestep_spec t_adapt d None, update_timestep_spec t_adapt d None)),
       stokes_solve = (\<lambda>z T. Inr z),
       energy_solve = (\<lambda>d T z. Inr (T, T)),
       u_rms = (\<lambda>z F. 0), u_rms_top = (\<lambda>z F. 0), ux_max = (\<lambda>z F. 0),
       Nu_bottom = (\<lambda>z F. 0), Nu_top = (\<lambda>z F. sum_list (take 1 F)), T_avg = (\<lambda>z F. 0),
       work_against_gravity = (\<lambda>z T. 0), viscous_dissipation = (\<lambda>z. 0),
       assemble_sq = (\<lambda>f. sum_list (map (\<lambda>x. x * x) f)) \<rparr>"

text \<open>The energy solve adds one to every nodal value, and fails once the first has reached \<open>limit\<close>.\<close>

definition heating_env :: "real \<Rightarrow> collaborators" where
  "heating_env limit =
     still_env\<lparr> energy_solve :=
       (\<lambda>d T z. if limit \<le> sum_list (take 1 T) then Inl SolverDivergence
                 else Inr (map (\<lambda>x. x + 1) T, T)) \<rparr>"

text \<open>
  A flow that becomes very fast: the Stokes solve adds one to every nodal value of \<open>z\<close>,
  and the CFL bound is undefined while the first of them is zero and \<open>2 ^ -80\<close> after that.
\<close>

definition fast_flow_env :: collaborators where
  "fast_flow_env =
     still_env\<lparr> update_timestep :=
                   adaptor_of (\<lambda>z. if sum_list (take 1 z) = 0 then None else Some (1 / 2 ^ 80)),
                 stokes_solve := (\<lambda>z T. Inr (map (\<lambda>x. x + 1) z)) \<rparr>"

definition unit_square :: mesh_descr where
  "unit_square = \<lparr> nx = 40, ny = 40, quadrilateral = True, cartesian = True \<rparr>"

definition one_node :: problem where
  "one_node =
     \<lparr> mesh = unit_square, rhobar = [1], Tbar = [1 / 2], alphabar = [1], cpbar = [1],
       chibar = [1], T_init = [0], z_init = [0] \<rparr>"

section \<open>Rounding to the nearest double\<close>

lemma rne_of_int [simp]: "rne (of_int n) = n"
  by (simp add: rne_def)

lemma rne_0 [simp]: "rne 0 = 0"
  using rne_of_int[of 0] by simp

lemma rne_floor_ceiling: "\<lfloor>y\<rfloor> \<le> rne y" "rne y \<le> \<lfloor>y\<rfloor> + 1"
  unfolding rne_def by auto

lemma rne_mono:
  assumes "x \<le> y"
  shows "rne x \<le> rne y"
proof (cases "\<lfloor>x\<rfloor> = \<lfloor>y\<rfloor>")
  case True
  with assms show ?thesis unfolding rne_def by auto
next
  case False
  with assms have "\<lfloor>x\<rfloor> < \<lfloor>y\<rfloor>" by (simp add: floor_mono order.not_eq_order_implies_strict)
  then have "\<lfloor>x\<rfloor> + 1 \<le> \<lfloor>y\<rfloor>" by simp
  with rne_floor_ceiling(2)[of x] rne_floor_ceiling(1)[of y] show ?thesis by linarith
qed

lemma pow2_pos [simp]: "0 < pow2 k"
  by (simp add: pow2_def)

lemma pow2_add: "pow2 (a + b) = pow2 a * pow2 b"
  by (simp add: pow2_def powr_add)

lemma pow2_mono: "a \<le> b \<Longrightarrow> pow2 a \<le> pow2 b"
  by (simp add: pow2_def)

lemma pow2_nat: "0 \<le> k \<Longrightarrow> pow2 k = of_int (2 ^ nat k)"
  by (simp add: pow2_def powr_real_of_int)

lemma pow2_less_iff: "pow2 a < pow2 b \<longleftrightarrow> a < b"
  by (simp add: pow2_def)

lemma exponent_bounds:
  assumes "0 < x"
  shows "pow2 \<lfloor>log 2 x\<rfloor> \<le> x" "x < pow2 (\<lfloor>log 2 x\<rfloor> + 1)"
  using floor_log_eq_powr_iff[of x 2 "\<lfloor>log 2 x\<rfloor>"] assms by (simp_all add: pow2_def)

lemma exponent_mono:
  assumes "0 < x" "x \<le> y"
  shows "\<lfloor>log 2 x\<rfloor> \<le> \<lfloor>log 2 y\<rfloor>"
  using assms by (intro floor_mono log_mono) simp_all

lemma round_double_pos:
  "0 < x \<Longrightarrow> round_double x = of_int (rne (x / spacing x)) * spacing x"
  by (simp add: round_double_def)

lemma spacing_pos [simp]: "0 < spacing x"
  by (simp add: spacing_def)

lemma spacing_nonneg [simp]: "0 \<le> spacing x"
  by (rule less_imp_le) (rule spacing_pos)

lemma scaled_upper:
  assumes "0 < x"
  shows "x / spacing x < 2 ^ 53"
proof -
  let ?E = "max \<lfloor>log 2 x\<rfloor> (- 1022)"
  have "x < pow2 (\<lfloor>log 2 x\<rfloor> + 1)" using assms by (rule exponent_bounds)
  also have "\<dots> \<le> pow2 (?E + 1)" by (rule pow2_mono) simp
  also have "?E + 1 = (?E - 52) + 53" by simp
  also have "pow2 ((?E - 52) + 53) = pow2 (?E - 52) * pow2 53" by (rule pow2_add)
  also have "pow2 53 = 2 ^ 53" by (simp add: pow2_nat)
  finally have "x < spacing x * 2 ^ 53" using assms by (simp add: spacing_def)
  then show ?thesis by (simp add: pos_divide_less_eq mult.commute)
qed

lemma scaled_lower:
  assumes "0 < x" and "- 1022 \<le> \<lfloor>log 2 x\<rfloor>"
  shows "2 ^ 52 \<le> x / spacing x"
proof -
  let ?e = "\<lfloor>log 2 x\<rfloor>"
  from assms(2) have "max ?e (- 1022) = ?e" by (rule max_absorb1)
  then have sp: "spacing x = pow2 (?e - 52)"
    by (simp only: spacing_def abs_of_pos[OF assms(1)])
  have "?e = (?e - 52) + 52" by simp
  then have "pow2 ?e = pow2 (?e - 52) * pow2 52" by (metis pow2_add)
  also have "pow2 52 = 2 ^ 52" by (simp add: pow2_nat)
  finally have "pow2 ?e = spacing x * 2 ^ 52" using sp by simp
  moreover have "pow2 ?e \<le> x" using assms(1) by (rule exponent_bounds)
  ultimately have "spacing x * 2 ^ 52 \<le> x" by simp
  then show ?thesis by (simp add: pos_le_divide_eq mult.commute)
qed

lemma rne_scaled_bounds:
  assumes "0 < x"
  shows "0 \<le> rne (x / spacing x)" "rne (x / spacing x) \<le> 2 ^ 53"
proof -
  have "0 \<le> x / spacing x" by (rule divide_nonneg_pos) (simp_all add: less_imp_le[OF assms])
  then have "rne (of_int 0) \<le> rne (x / spacing x)" by (intro rne_mono) simp
  then show "0 \<le> rne (x / spacing x)" by simp
  have "x / spacing x \<le> of_int (2 ^ 53)" using scaled_upper[OF assms] by simp
  then have "rne (x / spacing x) \<le> rne (of_int (2 ^ 53))" by (rule rne_mono)
  then show "rne (x / spacing x) \<le> 2 ^ 53" by (simp only: rne_of_int)
qed

lemma round_double_nonneg: "0 \<le> x \<Longrightarrow> 0 \<le> round_double x"
proof (cases "x = 0")
  case True
  then show ?thesis by (simp add: round_double_def)
next
  case False
  assume "0 \<le> x"
  with False have "0 < x" by simp
  with rne_scaled_bounds(1)[OF this] show ?thesis by (simp add: round_double_pos)
qed

lemma round_double_upper:
  assumes "0 < x"
  shows "round_double x \<le> pow2 (max \<lfloor>log 2 x\<rfloor> (- 1022) + 1)"
proof -
  let ?E = "max \<lfloor>log 2 x\<rfloor> (- 1022)"
  have "real_of_int (rne (x / spacing x)) \<le> real_of_int (2 ^ 53)"
    using rne_scaled_bounds(2)[OF assms] by (simp only: of_int_le_iff)
  then have "round_double x \<le> 2 ^ 53 * spacing x"
    using assms by (simp add: round_double_pos)
  also have "(2::real) ^ 53 = pow2 53" by (simp add: pow2_nat)
  also have "pow2 53 * spacing x = pow2 (53 + (?E - 52))"
    by (simp only: spacing_def abs_of_pos[OF assms] pow2_add)
  also have "53 + (?E - 52) = ?E + 1" by simp
  finally show ?thesis .
qed

lemma round_double_lower:
  assumes "0 < x" and "- 1022 \<le> \<lfloor>log 2 x\<rfloor>"
  shows "pow2 \<lfloor>log 2 x\<rfloor> \<le> round_double x"
proof -
  let ?e = "\<lfloor>log 2 x\<rfloor>"
  from assms(2) have "max ?e (- 1022) = ?e" by (rule max_absorb1)
  then have sp: "spacing x = pow2 (?e - 52)"
    by (simp only: spacing_def abs_of_pos[OF assms(1)])
  have "of_int (2 ^ 52) \<le> x / spacing x" using scaled_lower[OF assms] by simp
  then have "rne (of_int (2 ^ 52)) \<le> rne (x / spacing x)" by (rule rne_mono)
  then have "2 ^ 52 \<le> rne (x / spacing x)" by (simp only: rne_of_int)
  then have "real_of_int (2 ^ 52) \<le> real_of_int (rne (x / spacing x))"
    by (simp only: of_int_le_iff)
  then have "2 ^ 52 * spacing x \<le> round_double x"
    using assms(1) by (simp add: round_double_pos)
  moreover have "(2::real) ^ 52 * spacing x = pow2 (52 + (?e - 52))"
    unfolding sp pow2_add by (simp add: pow2_nat)
  ultimately show ?thesis by simp
qed

lemma round_double_mono:
  assumes "0 < x" and "x \<le> y"
  shows "round_double x \<le> round_double y"
proof -
  let ?ex = "max \<lfloor>log 2 x\<rfloor> (- 1022)" and ?ey = "max \<lfloor>log 2 y\<rfloor> (- 1022)"
  from assms have y: "0 < y" by simp
  from exponent_mono[OF assms] have le: "?ex \<le> ?ey" by simp
  show ?thesis
  proof (cases "?ex = ?ey")
    case True
    then have sp: "spacing x = spacing y" using assms y by (simp add: spacing_def)
    from assms have "x / spacing y \<le> y / spacing y" by (simp add: divide_right_mono)
    then have "rne (x / spacing y) \<le> rne (y / spacing y)" by (rule rne_mono)
    then have "real_of_int (rne (x / spacing y)) * spacing y \<le> real_of_int (rne (y / spacing y)) * spacing y"
      by (simp add: mult_right_mono)
    then show ?thesis using assms y sp by (simp add: round_double_pos)
  next
    case False
    with le have lt: "?ex + 1 \<le> ?ey" by simp
    then have n: "- 1022 \<le> \<lfloor>log 2 y\<rfloor>" by linarith
    then have ey: "?ey = \<lfloor>log 2 y\<rfloor>" by (rule max_absorb1)
    have "round_double x \<le> pow2 (?ex + 1)" using assms(1) by (rule round_double_upper)
    also have "\<dots> \<le> pow2 ?ey" using lt by (rule pow2_mono)
    also have "\<dots> = pow2 \<lfloor>log 2 y\<rfloor>" using ey by simp
    also have "\<dots> \<le> round_double y" using y n by (rule round_double_lower)
    finally show ?thesis .
  qed
qed

lemma spacing_nonzero [simp]: "spacing x \<noteq> 0"
  using spacing_pos[of x] by (rule less_imp_neq[symmetric])

lemma round_double_fixed:
  assumes m: "0 < m" "m < 2 ^ 53" and k: "- 1074 \<le> k"
  shows "round_double (of_int m * pow2 k) = of_int m * pow2 k"
proof -
  let ?t = "real_of_int m * pow2 k"
  let ?E = "max \<lfloor>log 2 ?t\<rfloor> (- 1022)"
  have t: "0 < ?t" using m(1) by simp
  have "real_of_int m < real_of_int (2 ^ 53)" using m(2) by (simp only: of_int_less_iff)
  then have "?t < 2 ^ 53 * pow2 k" by simp
  also have "(2::real) ^ 53 = pow2 53" by (simp add: pow2_nat)
  also have "pow2 53 * pow2 k = pow2 (53 + k)" by (simp only: pow2_add)
  finally have "?t < pow2 (53 + k)" .
  with exponent_bounds(1)[OF t] have "pow2 \<lfloor>log 2 ?t\<rfloor> < pow2 (53 + k)" by simp
  then have "\<lfloor>log 2 ?t\<rfloor> < 53 + k" by (simp only: pow2_less_iff)
  with k have j: "0 \<le> k - (?E - 52)" by linarith
  have "k = (k - (?E - 52)) + (?E - 52)" by simp
  then have "pow2 k = pow2 (k - (?E - 52)) * pow2 (?E - 52)" by (metis pow2_add)
  also have "pow2 (k - (?E - 52)) = of_int (2 ^ nat (k - (?E - 52)))" using j by (rule pow2_nat)
  also have "pow2 (?E - 52) = spacing ?t" by (simp only: spacing_def abs_of_pos[OF t])
  finally have pk: "pow2 k = of_int (2 ^ nat (k - (?E - 52))) * spacing ?t" .
  have "?t / spacing ?t = real_of_int m * (of_int (2 ^ nat (k - (?E - 52))) * spacing ?t) / spacing ?t"
    by (simp only: pk[symmetric])
  also have "\<dots> = of_int (m * 2 ^ nat (k - (?E - 52)))" by simp
  finally have "rne (?t / spacing ?t) = m * 2 ^ nat (k - (?E - 52))" by (simp only: rne_of_int)
  then have "round_double ?t = of_int (m * 2 ^ nat (k - (?E - 52))) * spacing ?t"
    using t by (simp only: round_double_pos)
  also have "\<dots> = real_of_int m * (of_int (2 ^ nat (k - (?E - 52))) * spacing ?t)" by simp
  also have "\<dots> = ?t" by (simp only: pk[symmetric])
  finally show ?thesis .
qed

lemma is_double_0: "is_double 0"
  unfolding is_double_def by (intro exI[of _ 0] exI[of _ 0]) simp

lemma round_double_is_double:
  assumes "0 \<le> x"
  shows "is_double (round_double x)"
proof (cases "x = 0")
  case True
  then show ?thesis by (simp add: round_double_def is_double_0)
next
  case False
  with assms have x: "0 < x" by simp
  let ?E = "max \<lfloor>log 2 x\<rfloor> (- 1022)"
  let ?n = "rne (x / spacing x)"
  have sp: "spacing x = pow2 (?E - 52)" by (simp only: spacing_def abs_of_pos[OF x])
  have rd: "round_double x = of_int ?n * pow2 (?E - 52)"
    using x by (simp only: round_double_pos sp)
  note b = rne_scaled_bounds[OF x]
  show ?thesis
  proof (cases "?n = 2 ^ 53")
    case True
    have "?E - 51 = 1 + (?E - 52)" by simp
    then have "pow2 (?E - 51) = pow2 1 * pow2 (?E - 52)" by (metis pow2_add)
    also have "pow2 1 = 2" by (simp add: pow2_nat)
    finally have "round_double x = of_int (2 ^ 52) * pow2 (?E - 51)"
      using rd True by simp
    moreover have "\<bar>2 ^ 52 :: int\<bar> < 2 ^ 53" by simp
    moreover have "- 1074 \<le> ?E - 51" by simp
    ultimately show ?thesis unfolding is_double_def by blast
  next
    case False
    with b have "\<bar>?n\<bar> < 2 ^ 53" by simp
    moreover have "- 1074 \<le> ?E - 52" by simp
    ultimately show ?thesis using rd unfolding is_double_def by blast
  qed
qed

lemma float_add_nonneg: "0 \<le> t + d \<Longrightarrow> 0 \<le> float_add t d"
  unfolding float_add_def by (rule round_double_nonneg)

lemma float_add_is_double: "0 \<le> t + d \<Longrightarrow> is_double (float_add t d)"
  unfolding float_add_def by (rule round_double_is_double)

lemma float_add_ge:
  assumes "is_double t" and "0 \<le> t" and "0 \<le> d"
  shows "t \<le> float_add t d"
proof (cases "t = 0")
  case True
  with assms(3) float_add_nonneg[of t d] show ?thesis by simp
next
  case False
  with assms(2) have t: "0 < t" by simp
  from assms(1) obtain m k where mk: "t = of_int m * pow2 k" "\<bar>m\<bar> < 2 ^ 53" "- 1074 \<le> k"
    unfolding is_double_def by blast
  from t mk(1) have "0 < real_of_int m * pow2 k" by simp
  then have "0 < real_of_int m" using pow2_pos by (rule zero_less_mult_pos2)
  then have "0 < m" by simp
  moreover from mk(2) have "m < 2 ^ 53" by simp
  ultimately have "round_double t = t" unfolding mk(1) using mk(3) by (rule round_double_fixed)
  moreover from assms(3) have "t \<le> t + d" by simp
  with t have "round_double t \<le> round_double (t + d)" by (rule round_double_mono)
  ultimately show ?thesis by (simp add: float_add_def)
qed

text \<open>The rounding at a known exponent, and the two sums of the fast flow.\<close>

lemma round_double_at:
  assumes "pow2 e \<le> x" and "x < pow2 (e + 1)" and "- 1022 \<le> e"
  shows "round_double x = of_int (rne (x / pow2 (e - 52))) * pow2 (e - 52)"
proof -
  have x: "0 < x" using assms(1) pow2_pos[of e] by linarith
  from assms(1,2) have "\<lfloor>log 2 x\<rfloor> = e"
    using floor_log_eq_powr_iff[of x 2 e] x by (simp add: pow2_def)
  with assms(3) have "spacing x = pow2 (e - 52)"
    by (simp add: spacing_def abs_of_pos[OF x] max_absorb1)
  with x show ?thesis by (simp only: round_double_pos)
qed

lemma first_time: "float_add 0 (1 / 10 ^ 6) = 4722366482869645 / 2 ^ 72"
proof -
  have "round_double (1 / 10 ^ 6) =
        of_int (rne ((1 / 10 ^ 6) / pow2 (- 20 - 52))) * pow2 (- 20 - 52)"
    by (rule round_double_at) (simp_all add: pow2_def powr_minus_divide)
  also have "pow2 (- 20 - 52) = 1 / 2 ^ 72" by (simp add: pow2_def powr_minus_divide)
  also have "rne ((1 / 10 ^ 6) / (1 / 2 ^ 72)) = 4722366482869645" by (simp add: rne_def)
  finally show ?thesis by (simp add: float_add_def)
qed

lemma absorbed: "float_add (4722366482869645 / 2 ^ 72) (1 / 2 ^ 80) = 4722366482869645 / 2 ^ 72"
proof -
  have "round_double (4722366482869645 / 2 ^ 72 + 1 / 2 ^ 80) =
        of_int (rne ((4722366482869645 / 2 ^ 72 + 1 / 2 ^ 80) / pow2 (- 20 - 52))) * pow2 (- 20 - 52)"
    by (rule round_double_at) (simp_all add: pow2_def powr_minus_divide)
  also have "pow2 (- 20 - 52) = 1 / 2 ^ 72" by (simp add: pow2_def powr_minus_divide)
  also have "rne ((4722366482869645 / 2 ^ 72 + 1 / 2 ^ 80) / (1 / 2 ^ 72)) = 4722366482869645"
    by (simp add: rne_def)
  finally show ?thesis by (simp add: float_add_def)
qed

section \<open>One pass\<close>

lemma write_output_keeps [simp]:
  "time (write_output su k s) = time s"
  "delta_t (write_output su k s) = delta_t s"
  "z_fld (write_output su k s) = z_fld s"
  "T_fld (write_output su k s) = T_fld s"
  "FullT (write_output su k s) = FullT s"
  "plog (write_output su k s) = plog s"
  "plog_closed (write_output su k s) = plog_closed s"
  "final_checkpoint (write_output su k s) = final_checkpoint s"
  by (simp_all add: write_output_def)

lemma iteration_completed:
  assumes "iteration env su tol k s = Continue s' \<or> iteration env su tol k s = Break s'"
  obtains z' T' T_old where
    "stokes_solve env (z_fld s) (T_fld s) = Inr z'"
    "energy_solve env (snd (update_timestep env (delta_t s) (z_fld s))) (T_fld s) z' = Inr (T', T_old)"
    "s' = (after_solves env su k s z' T')
            \<lparr> plog := plog s @ [Row (diagnostics env k T_old (after_solves env su k s z' T'))],
              FullT := field_add T' (Tbar su) \<rparr>"
    "iteration env su tol k s = Break s' \<longleftrightarrow>
       row_maxchange (diagnostics env k T_old (after_solves env su k s z' T')) < tol"
  using assms
  by (auto simp: iteration_def after_solves_def Let_def split: prod.splits sum.splits if_splits)

lemma iteration_raised:
  assumes "iteration env su tol k s = Raised e s'"
  shows "e = SolverDivergence \<and>
         (stokes_solve env (z_fld s') (T_fld s') = Inl SolverDivergence \<or>
          energy_solve env (delta_t s') (T_fld s') (z_fld s') = Inl SolverDivergence) \<and>
         plog s' = plog s \<and> plog_closed s' = plog_closed s \<and>
         final_checkpoint s' = final_checkpoint s"
  using assms
  by (cases e) (auto simp: iteration_def Let_def split: prod.splits sum.splits if_splits)

section \<open>The loop\<close>

lemma time_loop_stop: "\<not> k < n \<Longrightarrow> time_loop env su tol n k s = (MAX_STEPS_REACHED, k, s)"
  by (simp add: time_loop.simps)

lemma time_loop_raised:
  "k < n \<Longrightarrow> iteration env su tol k s = Raised e s' \<Longrightarrow> time_loop env su tol n k s = (DIVERGED, k, s')"
  by (simp add: time_loop.simps)

lemma time_loop_break:
  "k < n \<Longrightarrow> iteration env su tol k s = Break s' \<Longrightarrow> time_loop env su tol n k s = (CONVERGED, Suc k, s')"
  by (simp add: time_loop.simps)

lemma time_loop_continue:
  "k < n \<Longrightarrow> iteration env su tol k s = Continue s' \<Longrightarrow>
   time_loop env su tol n k s = time_loop env su tol n (Suc k) s'"
  by (simp add: time_loop.simps)

lemma passes_stop: "\<not> k < n \<Longrightarrow> passes env su tol n k s = []"
  by (simp add: passes.simps)

lemma passes_raised:
  "k < n \<Longrightarrow> iteration env su tol k s = Raised e s' \<Longrightarrow> passes env su tol n k s = []"
  by (simp add: passes.simps)

lemma passes_break:
  "k < n \<Longrightarrow> iteration env su tol k s = Break s' \<Longrightarrow> passes env su tol n k s = [s']"
  by (simp add: passes.simps)

lemma passes_continue:
  "k < n \<Longrightarrow> iteration env su tol k s = Continue s' \<Longrightarrow>
   passes env su tol n k s = s' # passes env su tol n (Suc k) s'"
  by (simp add: passes.simps)

text \<open>The loop's result against the passes it completed.\<close>

lemma time_loop_passes:
  assumes "time_loop env su tol n k s = (oc, m, s')" and "k \<le> n"
  shows "m = k + length (passes env su tol n k s) \<and> m \<le> n \<and>
         (oc \<noteq> DIVERGED \<longrightarrow> s' = last (s # passes env su tol n k s))"
  using assms
proof (induction env su tol n k s rule: time_loop.induct)
  case (1 env su tol n k s)
  show ?case
  proof (cases "k < n")
    case False
    with "1.prems" show ?thesis by (simp add: time_loop_stop passes_stop)
  next
    case True
    show ?thesis
    proof (cases "iteration env su tol k s")
      case (Raised e t)
      with True "1.prems" show ?thesis by (simp add: time_loop_raised passes_raised)
    next
      case (Break t)
      with True "1.prems" show ?thesis by (auto simp: time_loop_break passes_break)
    next
      case (Continue t)
      with True "1.prems" have "time_loop env su tol n (Suc k) t = (oc, m, s')"
        by (simp add: time_loop_continue)
      with "1.IH"[OF True Continue] True
      have "m = Suc k + length (passes env su tol n (Suc k) t) \<and> m \<le> n \<and>
         (oc \<noteq> DIVERGED \<longrightarrow> s' = last (t # passes env su tol n (Suc k) t))" by simp
      with True Continue show ?thesis by (simp add: passes_continue)
    qed
  qed
qed

text \<open>Each observed state comes from the one before it by a pass that ran to its end.\<close>

lemma passes_chain:
  assumes "Suc i < length (s # passes env su tol n k s)"
  shows "iteration env su tol (k + i) ((s # passes env su tol n k s) ! i)
           = Continue ((s # passes env su tol n k s) ! Suc i) \<or>
         iteration env su tol (k + i) ((s # passes env su tol n k s) ! i)
           = Break ((s # passes env su tol n k s) ! Suc i)"
  using assms
proof (induction env su tol n k s arbitrary: i rule: passes.induct)
  case (1 env su tol n k s)
  show ?case
  proof (cases "k < n")
    case False
    with "1.prems" show ?thesis by (simp add: passes_stop)
  next
    case True
    show ?thesis
    proof (cases "iteration env su tol k s")
      case (Raised e t)
      with True "1.prems" show ?thesis by (simp add: passes_raised)
    next
      case (Break t)
      with True "1.prems" show ?thesis by (simp add: passes_break)
    next
      case (Continue t)
      note ps = passes_continue[OF True Continue]
      show ?thesis
      proof (cases i)
        case 0
        with Continue ps show ?thesis by simp
      next
        case (Suc j)
        with "1.prems" ps have "Suc j < length (t # passes env su tol n (Suc k) t)" by simp
        from "1.IH"[OF True Continue this] Suc ps show ?thesis by simp
      qed
    qed
  qed
qed

lemma completed_keeps:
  assumes "iteration env su tol k s = Continue s' \<or> iteration env su tol k s = Break s'"
  shows "plog_closed s' = plog_closed s \<and> final_checkpoint s' = final_checkpoint s"
  using assms by (elim iteration_completed) (simp add: after_solves_def)

lemma completed_row:
  assumes "iteration env su tol k s = Continue s' \<or> iteration env su tol k s = Break s'"
  shows "\<exists>r. plog s' = plog s @ [Row r] \<and> row_timestep r = k \<and>
             (iteration env su tol k s = Break s' \<longleftrightarrow> row_maxchange r < tol)"
  using assms by (elim iteration_completed) (simp add: diagnostics_def Let_def)

lemma time_loop_outcome:
  assumes "time_loop env su tol n k s = (oc, m, s')" and "k \<le> n"
  shows "(oc = MAX_STEPS_REACHED \<longrightarrow> m = n) \<and> (oc = CONVERGED \<longrightarrow> k < m) \<and>
         (oc = DIVERGED \<longrightarrow> m < n \<and>
            (stokes_solve env (z_fld s') (T_fld s') = Inl SolverDivergence \<or>
             energy_solve env (delta_t s') (T_fld s') (z_fld s') = Inl SolverDivergence)) \<and>
         plog_closed s' = plog_closed s \<and> final_checkpoint s' = final_checkpoint s"
  using assms
proof (induction env su tol n k s rule: time_loop.induct)
  case (1 env su tol n k s)
  show ?case
  proof (cases "k < n")
    case False
    with "1.prems" show ?thesis by (simp add: time_loop_stop)
  next
    case True
    show ?thesis
    proof (cases "iteration env su tol k s")
      case (Raised e t)
      with True "1.prems" iteration_raised[OF Raised] show ?thesis
        by (simp add: time_loop_raised)
    next
      case (Break t)
      with True "1.prems" completed_keeps[of env su tol k s t] show ?thesis
        by (auto simp: time_loop_break)
    next
      case (Continue t)
      with True "1.prems" have "time_loop env su tol n (Suc k) t = (oc, m, s')"
        by (simp add: time_loop_continue)
      with "1.IH"[OF True Continue] True completed_keeps[of env su tol k s t] Continue
      show ?thesis by auto
    qed
  qed
qed

lemma time_loop_log:
  assumes "time_loop env su tol n k s = (oc, m, s')" and "k \<le> n"
  shows "\<exists>rows. plog s' = plog s @ map Row rows \<and> map row_timestep rows = [k..<m] \<and>
           (\<forall>r\<in>set (butlast rows). \<not> row_maxchange r < tol) \<and>
           (oc = CONVERGED \<longrightarrow> rows \<noteq> [] \<and> row_maxchange (last rows) < tol) \<and>
           (oc \<noteq> CONVERGED \<longrightarrow> (\<forall>r\<in>set rows. \<not> row_maxchange r < tol))"
  using assms
proof (induction env su tol n k s rule: time_loop.induct)
  case (1 env su tol n k s)
  show ?case
  proof (cases "k < n")
    case False
    with "1.prems" show ?thesis by (simp add: time_loop_stop)
  next
    case True
    show ?thesis
    proof (cases "iteration env su tol k s")
      case (Raised e t)
      with True "1.prems" iteration_raised[OF Raised] show ?thesis
        by (simp add: time_loop_raised)
    next
      case (Break t)
      from completed_row[of env su tol k s t] Break obtain r where
        r: "plog t = plog s @ [Row r]" "row_timestep r = k" "row_maxchange r < tol" by auto
      from True "1.prems" Break have "oc = CONVERGED" "m = Suc k" "s' = t"
        by (simp_all add: time_loop_break)
      with r have "plog s' = plog s @ map Row [r] \<and> map row_timestep [r] = [k..<m] \<and>
           (\<forall>r\<in>set (butlast [r]). \<not> row_maxchange r < tol) \<and>
           (oc = CONVERGED \<longrightarrow> [r] \<noteq> [] \<and> row_maxchange (last [r]) < tol) \<and>
           (oc \<noteq> CONVERGED \<longrightarrow> (\<forall>r\<in>set [r]. \<not> row_maxchange r < tol))" by simp
      then show ?thesis by blast
    next
      case (Continue t)
      from completed_row[of env su tol k s t] Continue obtain r where
        r: "plog t = plog s @ [Row r]" "row_timestep r = k" "\<not> row_maxchange r < tol" by auto
      from True "1.prems" Continue have tl: "time_loop env su tol n (Suc k) t = (oc, m, s')"
        by (simp add: time_loop_continue)
      from time_loop_passes[OF tl] True have km: "Suc k \<le> m" by simp
      from "1.IH"[OF True Continue tl] True obtain rows where
        rows: "plog s' = plog t @ map Row rows" "map row_timestep rows = [Suc k..<m]"
           "\<forall>r\<in>set (butlast rows). \<not> row_maxchange r < tol"
           "oc = CONVERGED \<longrightarrow> rows \<noteq> [] \<and> row_maxchange (last rows) < tol"
           "oc \<noteq> CONVERGED \<longrightarrow> (\<forall>r\<in>set rows. \<not> row_maxchange r < tol)" by auto
      have a: "plog s' = plog s @ map Row (r # rows)" using r rows by simp
      have b: "map row_timestep (r # rows) = [k..<m]"
        using r rows km by (simp add: upt_conv_Cons)
      have c: "\<forall>x\<in>set (butlast (r # rows)). \<not> row_maxchange x < tol"
        using r rows by auto
      have d: "oc = CONVERGED \<longrightarrow> r # rows \<noteq> [] \<and> row_maxchange (last (r # rows)) < tol"
        using rows by simp
      have e: "oc \<noteq> CONVERGED \<longrightarrow> (\<forall>x\<in>set (r # rows). \<not> row_maxchange x < tol)"
        using r rows by simp
      from a b c d e show ?thesis by blast
    qed
  qed
qed

section \<open>The whole run\<close>

lemma simulation_cases:
  assumes "simulation env su n tol = (oc, k, s)"
  obtains s0 where "time_loop env su tol n 0 (initial su) = (oc, k, s0)"
    "oc = DIVERGED \<longrightarrow> s = s0" "oc \<noteq> DIVERGED \<longrightarrow> s = finish su s0"
  using assms
  by (cases "time_loop env su tol n 0 (initial su)")
     (auto simp: simulation_def split: outcome.splits)

lemma finish_keeps [simp]:
  "plog (finish su s) = plog s" "T_fld (finish su s) = T_fld s" "z_fld (finish su s) = z_fld s"
  "FullT (finish su s) = FullT s" "time (finish su s) = time s" "delta_t (finish su s) = delta_t s"
  by (simp_all add: finish_def)

lemma observed_chain:
  assumes "Suc i < length (observed env su tol n)"
  shows "iteration env su tol i (observed env su tol n ! i) = Continue (observed env su tol n ! Suc i) \<or>
         iteration env su tol i (observed env su tol n ! i) = Break (observed env su tol n ! Suc i)"
  using passes_chain[of i "initial su" env su tol n 0] assms by (simp add: observed_def)

lemma completed_full_temperature:
  assumes "iteration env su tol k s = Continue s' \<or> iteration env su tol k s = Break s'"
  shows "FullT s' = field_add (T_fld s') (Tbar su)"
  using assms by (elim iteration_completed) (simp add: after_solves_def)

lemma observed_full_temperature:
  assumes "s' \<in> set (observed env su tol n)"
  shows "FullT s' = field_add (T_fld s') (Tbar su)"
proof -
  from assms obtain j where j: "j < length (observed env su tol n)" "s' = observed env su tol n ! j"
    by (auto simp: in_set_conv_nth)
  show ?thesis
  proof (cases j)
    case 0
    with j show ?thesis by (simp add: observed_def initial_def)
  next
    case (Suc i)
    with j observed_chain[of i env su tol n] completed_full_temperature[of env su tol i "observed env su tol n ! i" s']
    show ?thesis by simp
  qed
qed

lemma field_add_nth:
  "i < length (field_add f g) \<Longrightarrow> field_add f g ! i = f ! i + g ! i"
  by (simp add: field_add_def)

lemma completed_diagnostics:
  assumes "iteration env su tol k s = Continue s' \<or> iteration env su tol k s = Break s'"
  shows "\<exists>r. last (plog s') = Row r \<and> row_timestep r = k \<and>
             row_nu_top r = Nu_top env (z_fld s') (FullT s) \<and>
             row_nu_base r = Nu_bottom env (z_fld s') (FullT s) \<and>
             row_avg_t r = T_avg env (z_fld s') (FullT s)"
  using assms by (elim iteration_completed) (simp add: after_solves_def diagnostics_def Let_def)

lemma simulation_log:
  assumes "simulation env su n tol = (oc, k, s)"
  shows "k \<le> n \<and> (\<exists>rows. plog s = Header header # map Row rows \<and> map row_timestep rows = [0..<k] \<and>
           (\<forall>r\<in>set (butlast rows). \<not> row_maxchange r < tol) \<and>
           (oc = CONVERGED \<longrightarrow> rows \<noteq> [] \<and> row_maxchange (last rows) < tol) \<and>
           (oc \<noteq> CONVERGED \<longrightarrow> (\<forall>r\<in>set rows. \<not> row_maxchange r < tol)))"
proof -
  from assms obtain s0 where s0: "time_loop env su tol n 0 (initial su) = (oc, k, s0)"
    "oc = DIVERGED \<longrightarrow> s = s0" "oc \<noteq> DIVERGED \<longrightarrow> s = finish su s0"
    by (rule simulation_cases)
  have p: "plog s = plog s0" using s0(2,3) by (cases "oc = DIVERGED") simp_all
  from time_loop_passes[OF s0(1)] have "k \<le> n" by simp
  moreover from time_loop_log[OF s0(1)] p
  have "\<exists>rows. plog s = Header header # map Row rows \<and> map row_timestep rows = [0..<k] \<and>
           (\<forall>r\<in>set (butlast rows). \<not> row_maxchange r < tol) \<and>
           (oc = CONVERGED \<longrightarrow> rows \<noteq> [] \<and> row_maxchange (last rows) < tol) \<and>
           (oc \<noteq> CONVERGED \<longrightarrow> (\<forall>r\<in>set rows. \<not> row_maxchange r < tol))"
    by (simp add: initial_def)
  ultimately show ?thesis by simp
qed

lemma simulation_outcome:
  assumes "simulation env su n tol = (oc, k, s)"
  shows "(oc = MAX_STEPS_REACHED \<longrightarrow> k = n) \<and> (oc = CONVERGED \<longrightarrow> 0 < k) \<and>
         (oc = DIVERGED \<longrightarrow> k < n \<and>
            (stokes_solve env (z_fld s) (T_fld s) = Inl SolverDivergence \<or>
             energy_solve env (delta_t s) (T_fld s) (z_fld s) = Inl SolverDivergence))"
proof -
  from assms obtain s0 where s0: "time_loop env su tol n 0 (initial su) = (oc, k, s0)"
    "oc = DIVERGED \<longrightarrow> s = s0" "oc \<noteq> DIVERGED \<longrightarrow> s = finish su s0"
    by (rule simulation_cases)
  from time_loop_outcome[OF s0(1)] s0(2) show ?thesis by auto
qed

lemma simulation_sinks:
  assumes "simulation env su n tol = (oc, k, s)"
  shows "(oc = DIVERGED \<longrightarrow> \<not> plog_closed s \<and> final_checkpoint s = None) \<and>
         (oc \<noteq> DIVERGED \<longrightarrow> plog_closed s \<and>
            final_checkpoint s =
              Some \<lparr> saved_mesh = mesh su,
                     saved_functions = [(''Temperature'', T_fld s), (''Stokes'', z_fld s)] \<rparr>)"
proof -
  from assms obtain s0 where s0: "time_loop env su tol n 0 (initial su) = (oc, k, s0)"
    "oc = DIVERGED \<longrightarrow> s = s0" "oc \<noteq> DIVERGED \<longrightarrow> s = finish su s0"
    by (rule simulation_cases)
  from time_loop_outcome[OF s0(1)]
  have keep: "plog_closed s0 = plog_closed (initial su)" "final_checkpoint s0 = final_checkpoint (initial su)"
    by simp_all
  show ?thesis
  proof (cases "oc = DIVERGED")
    case True
    with s0(2) keep show ?thesis by (simp add: initial_def)
  next
    case False
    with s0(3) show ?thesis by (simp add: finish_def)
  qed
qed

section \<open>The adaptor of the specification\<close>

lemma update_timestep_spec_bounds:
  assumes "0 < d" and "d \<le> 1 / 10" and "\<forall>x. c = Some x \<longrightarrow> 0 < x"
  shows "0 < update_timestep_spec t_adapt d c \<and>
         update_timestep_spec t_adapt d c \<le> min (1 / 10) (3 / 2 * d) \<and>
         (\<forall>x. c = Some x \<longrightarrow> update_timestep_spec t_adapt d c = min (1 / 10) (min (3 / 2 * d) x))"
  using assms by (cases c) (auto simp: update_timestep_spec_def t_adapt_def)

lemma adapted_bounds:
  assumes "0 < d" and "d \<le> 1 / 10" and "\<forall>c\<in>set cs. \<forall>x. c = Some x \<longrightarrow> 0 < x"
    and "i < length cs"
  shows "0 < adapted t_adapt d cs ! i \<and>
         adapted t_adapt d cs ! i \<le> min (1 / 10) (3 / 2 * ((d # adapted t_adapt d cs) ! i)) \<and>
         (\<forall>x. cs ! i = Some x \<longrightarrow>
            adapted t_adapt d cs ! i = min (1 / 10) (min (3 / 2 * ((d # adapted t_adapt d cs) ! i)) x))"
  using assms
proof (induction cs arbitrary: d i)
  case Nil
  then show ?case by simp
next
  case (Cons c cs)
  let ?dt = "update_timestep_spec t_adapt d c"
  from Cons.prems have c: "\<forall>x. c = Some x \<longrightarrow> 0 < x" by simp
  note b = update_timestep_spec_bounds[OF Cons.prems(1,2) c]
  show ?case
  proof (cases i)
    case 0
    with b show ?thesis by simp
  next
    case (Suc j)
    from b have "0 < ?dt" "?dt \<le> 1 / 10" by simp_all
    moreover from Cons.prems have "\<forall>c\<in>set cs. \<forall>x. c = Some x \<longrightarrow> 0 < x" by simp
    moreover from Cons.prems Suc have "j < length cs" by simp
    ultimately have "0 < adapted t_adapt ?dt cs ! j \<and>
         adapted t_adapt ?dt cs ! j \<le> min (1 / 10) (3 / 2 * ((?dt # adapted t_adapt ?dt cs) ! j)) \<and>
         (\<forall>x. cs ! j = Some x \<longrightarrow>
            adapted t_adapt ?dt cs ! j = min (1 / 10) (min (3 / 2 * ((?dt # adapted t_adapt ?dt cs) ! j)) x))"
      by (rule Cons.IH)
    with Suc show ?thesis by simp
  qed
qed

section \<open>Solvers that change nothing, solvers that never fail\<close>

lemma iteration_unchanged_breaks:
  assumes st: "\<forall>z T. stokes_solve env z T = Inr z"
    and en: "\<forall>d T z. energy_solve env d T z = Inr (T, T)"
    and zero: "\<forall>f. assemble_sq env (field_sub f f) = 0"
    and tol: "0 < tol"
  shows "\<exists>s'. iteration env su tol k s = Break s' \<and> T_fld s' = T_fld s \<and> z_fld s' = z_fld s"
proof -
  obtain dt d' where u: "update_timestep env (delta_t s) (z_fld s) = (dt, d')"
    by (cases "update_timestep env (delta_t s) (z_fld s)")
  have m: "sqrt (assemble_sq env (field_sub (T_fld s) (T_fld s))) < tol"
    using zero tol by simp
  show ?thesis
    using m by (simp add: iteration_def Let_def u st en diagnostics_def)
qed

lemma iteration_continues:
  assumes st: "\<forall>z T. \<exists>z'. stokes_solve env z T = Inr z'"
    and en: "\<forall>d T z. \<exists>r. energy_solve env d T z = Inr r"
    and nonneg: "\<forall>f. 0 \<le> assemble_sq env f"
    and tol: "tol \<le> 0"
  shows "\<exists>s'. iteration env su tol k s = Continue s'"
proof -
  obtain dt d' where u: "update_timestep env (delta_t s) (z_fld s) = (dt, d')"
    by (cases "update_timestep env (delta_t s) (z_fld s)")
  from st obtain z' where z: "stokes_solve env (z_fld s) (T_fld s) = Inr z'" by (elim allE exE)
  from en obtain r where "energy_solve env d' (T_fld s) z' = Inr r" by (elim allE exE)
  then obtain T' T_old where e: "energy_solve env d' (T_fld s) z' = Inr (T', T_old)"
    by (cases r) simp
  from nonneg have "0 \<le> assemble_sq env (field_sub T' T_old)" by (rule allE)
  then have "0 \<le> sqrt (assemble_sq env (field_sub T' T_old))" by (rule real_sqrt_ge_zero)
  with tol have m: "\<not> sqrt (assemble_sq env (field_sub T' T_old)) < tol" by linarith
  show ?thesis
    using m by (simp add: iteration_def Let_def u z e diagnostics_def)
qed

lemma time_loop_never_leaves:
  assumes "\<And>k s. \<exists>s'. iteration env su tol k s = Continue s'" and "k \<le> n"
  shows "\<exists>s'. time_loop env su tol n k s = (MAX_STEPS_REACHED, n, s')"
  using assms
proof (induction env su tol n k s rule: time_loop.induct)
  case (1 env su tol n k s)
  show ?case
  proof (cases "k < n")
    case False
    with "1.prems"(2) have "k = n" by simp
    then show ?thesis by (simp add: time_loop_stop)
  next
    case True
    from "1.prems"(1)[of k s] obtain t where t: "iteration env su tol k s = Continue t" ..
    from True have "Suc k \<le> n" by simp
    from "1.IH"[OF True t "1.prems"(1) this] time_loop_continue[OF True t] show ?thesis by simp
  qed
qed

section \<open>The time of the run\<close>

lemma completed_time:
  assumes "iteration env su tol k s = Continue s' \<or> iteration env su tol k s = Break s'"
  shows "time s' = float_add (time s) (fst (update_timestep env (delta_t s) (z_fld s)))"
  using assms by (elim iteration_completed) (simp add: after_solves_def)

lemma completed_delta_t:
  assumes "iteration env su tol k s = Continue s' \<or> iteration env su tol k s = Break s'"
  shows "delta_t s' = snd (update_timestep env (delta_t s) (z_fld s))"
  using assms by (elim iteration_completed) (simp add: after_solves_def)

lemma update_timestep_spec_positive:
  assumes "0 < d" and "\<forall>x. c = Some x \<longrightarrow> 0 < x"
  shows "0 < update_timestep_spec t_adapt d c"
  using assms by (cases c) (auto simp: update_timestep_spec_def t_adapt_def)

lemma adaptor_of_positive:
  assumes "\<forall>z x. cfl z = Some x \<longrightarrow> 0 < x" and "0 < d"
  shows "0 < fst (adaptor_of cfl d z)" "0 < snd (adaptor_of cfl d z)"
proof -
  from assms(1) have "\<forall>x. cfl z = Some x \<longrightarrow> 0 < x" by simp
  with assms(2) have "0 < update_timestep_spec t_adapt d (cfl z)"
    by (rule update_timestep_spec_positive)
  then show "0 < fst (adaptor_of cfl d z)" "0 < snd (adaptor_of cfl d z)"
    by (simp_all add: adaptor_of_def)
qed

lemma observed_delta_t_positive:
  assumes "update_timestep env = adaptor_of cfl" and "\<forall>z x. cfl z = Some x \<longrightarrow> 0 < x"
    and "j < length (observed env su tol n)"
  shows "0 < delta_t (observed env su tol n ! j)"
  using assms(3)
proof (induction j)
  case 0
  show ?case by (simp add: observed_def initial_def)
next
  case (Suc i)
  then have "0 < delta_t (observed env su tol n ! i)" by simp
  with assms(2) have "0 < snd (adaptor_of cfl (delta_t (observed env su tol n ! i))
                                  (z_fld (observed env su tol n ! i)))"
    by (rule adaptor_of_positive)
  with completed_delta_t[OF observed_chain[OF Suc.prems]] assms(1) show ?case by simp
qed

lemma observed_dt_positive:
  assumes "update_timestep env = adaptor_of cfl" and "\<forall>z x. cfl z = Some x \<longrightarrow> 0 < x"
    and "Suc i < length (observed env su tol n)"
  shows "0 < fst (update_timestep env (delta_t (observed env su tol n ! i))
                    (z_fld (observed env su tol n ! i)))"
proof -
  from assms(3) have "i < length (observed env su tol n)" by simp
  with assms(1,2) have "0 < delta_t (observed env su tol n ! i)"
    by (rule observed_delta_t_positive)
  with assms(2) have "0 < fst (adaptor_of cfl (delta_t (observed env su tol n ! i))
                                  (z_fld (observed env su tol n ! i)))"
    by (rule adaptor_of_positive)
  with assms(1) show ?thesis by simp
qed

lemma observed_time_double:
  assumes "update_timestep env = adaptor_of cfl" and "\<forall>z x. cfl z = Some x \<longrightarrow> 0 < x"
    and "j < length (observed env su tol n)"
  shows "0 \<le> time (observed env su tol n ! j) \<and> is_double (time (observed env su tol n ! j))"
  using assms(3)
proof (induction j)
  case 0
  show ?case by (simp add: observed_def initial_def is_double_0)
next
  case (Suc i)
  let ?a = "observed env su tol n ! i"
  let ?dt = "fst (update_timestep env (delta_t ?a) (z_fld ?a))"
  from Suc have a: "0 \<le> time ?a" by simp
  from assms(1,2) Suc.prems have "0 < ?dt" by (rule observed_dt_positive)
  with a have s: "0 \<le> time ?a + ?dt" by simp
  have "time (observed env su tol n ! Suc i) = float_add (time ?a) ?dt"
    using observed_chain[OF Suc.prems] by (rule completed_time)
  with float_add_nonneg[OF s] float_add_is_double[OF s] show ?case by simp
qed

section \<open>Runs of the test collaborators\<close>

lemmas run_defs =
  simulation_def time_loop.simps passes.simps observed_def iteration_def still_env_def
  heating_env_def one_node_def initial_def write_output_def output_frequency_def
  diagnostics_def field_add_def field_sub_def update_timestep_spec_def t_adapt_def
  finish_def Let_def

lemma still_assemble_zero: "assemble_sq still_env (field_sub f f) = 0"
  by (induction f) (simp_all add: still_env_def field_sub_def)

lemma still_assemble_nonneg: "0 \<le> assemble_sq still_env f"
  by (induction f) (simp_all add: still_env_def)

lemma still_run:
  "fst (simulation still_env one_node 5 steady_state_tolerance) = CONVERGED"
  "fst (snd (simulation still_env one_node 5 steady_state_tolerance)) = 1"
  by (simp_all add: run_defs steady_state_tolerance_def)

lemma heating_run:
  "fst (simulation (heating_env 2) one_node 5 steady_state_tolerance) = DIVERGED"
  "fst (snd (simulation (heating_env 2) one_node 5 steady_state_tolerance)) = 2"
  "plog_closed (snd (snd (simulation (heating_env 2) one_node 5 steady_state_tolerance))) = False"
  "final_checkpoint (snd (snd (simulation (heating_env 2) one_node 5 steady_state_tolerance))) = None"
  "length (plog (snd (snd (simulation (heating_env 2) one_node 5 steady_state_tolerance)))) = 3"
  by (simp_all add: run_defs steady_state_tolerance_def)

lemma observed_heating_length:
  "length (observed (heating_env 100) one_node 0 2) = 3"
  by (simp add: run_defs)

lemma still_result:
  "simulation still_env one_node 5 steady_state_tolerance =
     (CONVERGED, 1, snd (snd (simulation still_env one_node 5 steady_state_tolerance)))"
  using still_run by (cases "simulation still_env one_node 5 steady_state_tolerance") simp

lemma heating_result:
  "simulation (heating_env 2) one_node 5 steady_state_tolerance =
     (DIVERGED, 2, snd (snd (simulation (heating_env 2) one_node 5 steady_state_tolerance)))"
  using heating_run(1,2) by (cases "simulation (heating_env 2) one_node 5 steady_state_tolerance") simp

lemma fast_flow_adaptor:
  "update_timestep fast_flow_env =
     adaptor_of (\<lambda>z. if sum_list (take 1 z) = 0 then None else Some (1 / 2 ^ 80))"
  by (simp add: fast_flow_env_def)

lemma fast_flow_cfl_positive:
  "\<forall>z x. (if sum_list (take 1 z) = 0 then None else Some (1 / 2 ^ 80)) = Some x \<longrightarrow> (0::real) < x"
  by auto

lemma fast_flow_run:
  "length (observed fast_flow_env one_node 0 2) = 3"
  "time (observed fast_flow_env one_node 0 2 ! 0) = 0"
  "time (observed fast_flow_env one_node 0 2 ! 1) = float_add 0 (1 / 10 ^ 6)"
  "time (observed fast_flow_env one_node 0 2 ! Suc 1) = float_add (float_add 0 (1 / 10 ^ 6)) (1 / 2 ^ 80)"
  "fst (update_timestep fast_flow_env (delta_t (observed fast_flow_env one_node 0 2 ! 0))
         (z_fld (observed fast_flow_env one_node 0 2 ! 0))) = 1 / 10 ^ 6"
  "fst (update_timestep fast_flow_env (delta_t (observed fast_flow_env one_node 0 2 ! 1))
         (z_fld (observed fast_flow_env one_node 0 2 ! 1))) = 1 / 2 ^ 80"
  by (simp_all add: run_defs fast_flow_env_def adaptor_of_def)

section \<open>The claims of the specification\<close>

text \<open>
  Claim C1. In the state in which the loop is entered, and at the end of every pass that
  runs to its end (both solves, the diagnostics, the log line and the assignment of
  line 250), the full temperature is the temperature plus the reference temperature, node
  by node. Between the energy solve and line 250 the field still holds its previous value;
  that is claim C9.
\<close>


theorem full_temperature_after_every_step:
  assumes "s' \<in> set (observed env su tol n)"
  shows "FullT s' = field_add (T_fld s') (Tbar su) \<and>
         (\<forall>i<length (FullT s'). FullT s' ! i = T_fld s' ! i + Tbar su ! i)"
  using observed_full_temperature[OF assms] by (simp add: field_add_nth)

theorem full_temperature_after_every_step_witness:
  "observed (heating_env 100) one_node 0 2 ! 2 \<in> set (observed (heating_env 100) one_node 0 2) \<and>
   T_fld (observed (heating_env 100) one_node 0 2 ! 2) = [2] \<and>
   Tbar one_node = [1 / 2] \<and>
   FullT (observed (heating_env 100) one_node 0 2 ! 2) = [5 / 2]"
proof -
  have h: "observed (heating_env 100) one_node 0 2 ! 2 \<in> set (observed (heating_env 100) one_node 0 2)"
    by (rule nth_mem) (simp add: observed_heating_length)
  have T: "T_fld (observed (heating_env 100) one_node 0 2 ! 2) = [2]"
    by (simp add: run_defs)
  from full_temperature_after_every_step[OF h] T show ?thesis
    using h by (simp add: field_add_def one_node_def)
qed

text \<open>
  Claim C2 as stated fails: when the energy solve raises in the third pass, the run is
  \<open>DIVERGED\<close> and the log has not been closed.
\<close>


theorem log_left_open_on_divergence:
  "fst (simulation (heating_env 2) one_node 5 steady_state_tolerance) = DIVERGED \<and>
   \<not> plog_closed (snd (snd (simulation (heating_env 2) one_node 5 steady_state_tolerance)))"
  by (simp add: heating_run)

text \<open>
  Claim C2, amended. The log is closed exactly when the loop ends by convergence or by
  reaching the maximum number of steps: \<^verbatim>\<open>plog.close()\<close> follows the loop, with no
  handler around it, so an exception of a solver ends the script with the log open.
\<close>


theorem log_closed_unless_diverged:
  assumes "simulation env su n tol = (oc, k, s)"
  shows "plog_closed s \<longleftrightarrow> oc \<noteq> DIVERGED"
  using simulation_sinks[OF assms] by (cases "oc = DIVERGED") simp_all

theorem log_closed_unless_diverged_witness:
  "simulation still_env one_node 5 steady_state_tolerance =
     (CONVERGED, 1, snd (snd (simulation still_env one_node 5 steady_state_tolerance))) \<and>
   plog_closed (snd (snd (simulation still_env one_node 5 steady_state_tolerance)))"
  using log_closed_unless_diverged[OF still_result] still_result by simp

text \<open>
  Claim C3 as stated fails: when the energy solve raises in the third pass, the run is
  \<open>DIVERGED\<close> and there is no checkpoint.
\<close>


theorem no_checkpoint_on_divergence:
  "fst (simulation (heating_env 2) one_node 5 steady_state_tolerance) = DIVERGED \<and>
   final_checkpoint (snd (snd (simulation (heating_env 2) one_node 5 steady_state_tolerance))) = None"
  by (simp add: heating_run)

text \<open>
  Claim C3, amended. When the loop ends by convergence or by reaching the maximum number
  of steps, the checkpoint holds the mesh, the temperature under the name
  \<^verbatim>\<open>Temperature\<close> and the mixed solution under the name \<^verbatim>\<open>Stokes\<close>; when a solver
  raises, no checkpoint is written.
\<close>


theorem checkpoint_unless_diverged:
  assumes "simulation env su n tol = (oc, k, s)"
  shows "(oc \<noteq> DIVERGED \<longrightarrow>
            final_checkpoint s =
              Some \<lparr> saved_mesh = mesh su,
                     saved_functions = [(''Temperature'', T_fld s), (''Stokes'', z_fld s)] \<rparr>) \<and>
         (oc = DIVERGED \<longrightarrow> final_checkpoint s = None)"
  using simulation_sinks[OF assms] by (cases "oc = DIVERGED") simp_all

theorem checkpoint_unless_diverged_witness:
  "simulation still_env one_node 5 steady_state_tolerance =
     (CONVERGED, 1, snd (snd (simulation still_env one_node 5 steady_state_tolerance))) \<and>
   final_checkpoint (snd (snd (simulation still_env one_node 5 steady_state_tolerance))) =
     Some \<lparr> saved_mesh = unit_square, saved_functions = [(''Temperature'', [0]), (''Stokes'', [0])] \<rparr>"
proof -
  have "T_fld (snd (snd (simulation still_env one_node 5 steady_state_tolerance))) = [0]"
    "z_fld (snd (snd (simulation still_env one_node 5 steady_state_tolerance))) = [0]"
    by (simp_all add: run_defs steady_state_tolerance_def)
  with checkpoint_unless_diverged[OF still_result] still_result show ?thesis
    by (simp add: one_node_def)
qed

text \<open>
  Claim C4. The run always ends, after at most \<open>n\<close> passes, and ends in one of three ways,
  each with its own condition: \<open>CONVERGED\<close>, and the last logged change is below the
  tolerance; \<open>MAX_STEPS_REACHED\<close>, after exactly \<open>n\<close> passes, none of them below the
  tolerance; \<open>DIVERGED\<close>, before the \<open>n\<close>th pass ended, with one of the two solvers
  failing on the fields of the final state. In every case no pass before the last was
  below the tolerance. That the run ends is the totality of \<open>simulation\<close>, whose loop
  was defined with a termination proof.
\<close>


theorem run_loop_exit_paths:
  "case simulation env su n tol of (oc, k, s) \<Rightarrow>
     k \<le> n \<and>
     (\<exists>rows. plog s = Header header # map Row rows \<and> length rows = k \<and>
        (\<forall>r\<in>set (butlast rows). \<not> row_maxchange r < tol) \<and>
        (oc = CONVERGED \<longrightarrow> 0 < k \<and> row_maxchange (last rows) < tol) \<and>
        (oc = MAX_STEPS_REACHED \<longrightarrow> k = n \<and> (\<forall>r\<in>set rows. \<not> row_maxchange r < tol)) \<and>
        (oc = DIVERGED \<longrightarrow> k < n \<and> (\<forall>r\<in>set rows. \<not> row_maxchange r < tol) \<and>
           (stokes_solve env (z_fld s) (T_fld s) = Inl SolverDivergence \<or>
            energy_solve env (delta_t s) (T_fld s) (z_fld s) = Inl SolverDivergence)))"
proof -
  obtain oc k s where r: "simulation env su n tol = (oc, k, s)" by (cases "simulation env su n tol")
  from simulation_log[OF r] obtain rows where
    rows: "k \<le> n" "plog s = Header header # map Row rows" "map row_timestep rows = [0..<k]"
      "\<forall>r\<in>set (butlast rows). \<not> row_maxchange r < tol"
      "oc = CONVERGED \<longrightarrow> rows \<noteq> [] \<and> row_maxchange (last rows) < tol"
      "oc \<noteq> CONVERGED \<longrightarrow> (\<forall>r\<in>set rows. \<not> row_maxchange r < tol)" by blast
  from rows(3) have len: "length rows = k" by (metis length_map length_upt minus_nat.diff_0)
  note oc = simulation_outcome[OF r]
  have c: "oc = CONVERGED \<longrightarrow> 0 < k \<and> row_maxchange (last rows) < tol"
    using rows(5) oc by simp
  have m: "oc = MAX_STEPS_REACHED \<longrightarrow> k = n \<and> (\<forall>r\<in>set rows. \<not> row_maxchange r < tol)"
    using rows(6) oc by simp
  have d: "oc = DIVERGED \<longrightarrow> k < n \<and> (\<forall>r\<in>set rows. \<not> row_maxchange r < tol) \<and>
           (stokes_solve env (z_fld s) (T_fld s) = Inl SolverDivergence \<or>
            energy_solve env (delta_t s) (T_fld s) (z_fld s) = Inl SolverDivergence)"
    using rows(6) oc by simp
  have ex: "\<exists>rows. plog s = Header header # map Row rows \<and> length rows = k \<and>
        (\<forall>r\<in>set (butlast rows). \<not> row_maxchange r < tol) \<and>
        (oc = CONVERGED \<longrightarrow> 0 < k \<and> row_maxchange (last rows) < tol) \<and>
        (oc = MAX_STEPS_REACHED \<longrightarrow> k = n \<and> (\<forall>r\<in>set rows. \<not> row_maxchange r < tol)) \<and>
        (oc = DIVERGED \<longrightarrow> k < n \<and> (\<forall>r\<in>set rows. \<not> row_maxchange r < tol) \<and>
           (stokes_solve env (z_fld s) (T_fld s) = Inl SolverDivergence \<or>
            energy_solve env (delta_t s) (T_fld s) (z_fld s) = Inl SolverDivergence))"
    using rows(2,4) len c m d by blast
  from rows(1) ex show ?thesis unfolding r prod.case by (rule conjI)
qed

theorem run_loop_exit_paths_witness:
  "fst (simulation (heating_env 2) one_node 5 steady_state_tolerance) = DIVERGED \<and>
   fst (snd (simulation (heating_env 2) one_node 5 steady_state_tolerance)) = 2 \<and>
   (stokes_solve (heating_env 2)
      (z_fld (snd (snd (simulation (heating_env 2) one_node 5 steady_state_tolerance))))
      (T_fld (snd (snd (simulation (heating_env 2) one_node 5 steady_state_tolerance)))) = Inl SolverDivergence \<or>
    energy_solve (heating_env 2)
      (delta_t (snd (snd (simulation (heating_env 2) one_node 5 steady_state_tolerance))))
      (T_fld (snd (snd (simulation (heating_env 2) one_node 5 steady_state_tolerance))))
      (z_fld (snd (snd (simulation (heating_env 2) one_node 5 steady_state_tolerance)))) = Inl SolverDivergence)"
proof -
  define s where "s = snd (snd (simulation (heating_env 2) one_node 5 steady_state_tolerance))"
  have e: "simulation (heating_env 2) one_node 5 steady_state_tolerance = (DIVERGED, 2, s)"
    unfolding s_def by (rule heating_result)
  from run_loop_exit_paths[where env = "heating_env 2" and su = one_node and n = 5
      and tol = steady_state_tolerance]
  have "stokes_solve (heating_env 2) (z_fld s) (T_fld s) = Inl SolverDivergence \<or>
        energy_solve (heating_env 2) (delta_t s) (T_fld s) (z_fld s) = Inl SolverDivergence"
    unfolding e by simp (elim exE conjE)
  then show ?thesis unfolding e by simp
qed






text \<open>
  Claim C7. When both solvers leave the fields as they are, so that the temperature and
  the solver's old temperature agree and the assembled square of their difference is zero,
  then with the tolerance \<^verbatim>\<open>1e-9\<close> and any maximum of at least one step the run is
  \<open>CONVERGED\<close> after exactly one pass.
\<close>


theorem unchanged_fields_converge_in_one_step:
  assumes "\<forall>z T. stokes_solve env z T = Inr z"
    and "\<forall>d T z. energy_solve env d T z = Inr (T, T)"
    and "\<forall>f. assemble_sq env (field_sub f f) = 0"
    and "1 \<le> n"
  shows "\<exists>s. simulation env su n steady_state_tolerance = (CONVERGED, 1, s) \<and>
             T_fld s = T_init su \<and> z_fld s = z_init su"
proof -
  have "(0::real) < steady_state_tolerance" by (simp add: steady_state_tolerance_def)
  from iteration_unchanged_breaks[OF assms(1,2,3) this, of su 0 "initial su"]
  obtain s' where s': "iteration env su steady_state_tolerance 0 (initial su) = Break s'"
    "T_fld s' = T_fld (initial su)" "z_fld s' = z_fld (initial su)" by (elim exE conjE)
  from assms(4) have "0 < n" by simp
  from time_loop_break[OF this s'(1)]
  have "simulation env su n steady_state_tolerance = (CONVERGED, 1, finish su s')"
    by (simp add: simulation_def)
  with s'(2,3) show ?thesis by (simp add: initial_def)
qed

theorem unchanged_fields_converge_in_one_step_witness:
  "(\<forall>z T. stokes_solve still_env z T = Inr z) \<and>
   (\<forall>d T z. energy_solve still_env d T z = Inr (T, T)) \<and>
   (\<forall>f. assemble_sq still_env (field_sub f f) = 0) \<and> (1::nat) \<le> 5 \<and>
   (\<exists>s. simulation still_env one_node 5 steady_state_tolerance = (CONVERGED, 1, s) \<and>
        T_fld s = [0] \<and> z_fld s = [0])"
proof -
  have h1: "\<forall>z T. stokes_solve still_env z T = Inr z"
    and h2: "\<forall>d T z. energy_solve still_env d T z = Inr (T, T)"
    by (simp_all add: still_env_def)
  have h3: "\<forall>f. assemble_sq still_env (field_sub f f) = 0"
    by (simp add: still_assemble_zero)
  have h4: "(1::nat) \<le> 5" by simp
  from unchanged_fields_converge_in_one_step[OF h1 h2 h3 h4, of one_node]
  have "\<exists>s. simulation still_env one_node 5 steady_state_tolerance = (CONVERGED, 1, s) \<and>
        T_fld s = [0] \<and> z_fld s = [0]"
    by (simp add: one_node_def)
  with h1 h2 h3 h4 show ?thesis by (intro conjI)
qed

text \<open>
  Claim C8. With the tolerance 0 and a maximum of 10 steps, no solver failing and the
  assembled squares never negative, the run is \<open>MAX_STEPS_REACHED\<close> after exactly 10
  passes, and the log holds the header and exactly 10 rows, for the steps 0 to 9.
\<close>


theorem unreachable_tolerance_runs_ten_steps:
  assumes "\<forall>z T. \<exists>z'. stokes_solve env z T = Inr z'"
    and "\<forall>d T z. \<exists>r. energy_solve env d T z = Inr r"
    and "\<forall>f. 0 \<le> assemble_sq env f"
  shows "\<exists>s rows. simulation env su 10 0 = (MAX_STEPS_REACHED, 10, s) \<and>
           plog s = Header header # map Row rows \<and> length rows = 10 \<and>
           map row_timestep rows = [0..<10]"
proof -
  have "\<And>k s. \<exists>s'. iteration env su 0 k s = Continue s'"
    using assms by (rule iteration_continues) simp
  then have "\<exists>s'. time_loop env su 0 10 0 (initial su) = (MAX_STEPS_REACHED, 10, s')"
    by (rule time_loop_never_leaves) simp
  then obtain s0 where "time_loop env su 0 10 0 (initial su) = (MAX_STEPS_REACHED, 10, s0)" ..
  then have sim: "simulation env su 10 0 = (MAX_STEPS_REACHED, 10, finish su s0)"
    by (simp add: simulation_def)
  from simulation_log[OF sim, THEN conjunct2] obtain rows where
    rows: "plog (finish su s0) = Header header # map Row rows \<and>
           map row_timestep rows = [0..<10] \<and>
           (\<forall>r\<in>set (butlast rows). \<not> row_maxchange r < 0) \<and>
           (MAX_STEPS_REACHED = CONVERGED \<longrightarrow> rows \<noteq> [] \<and> row_maxchange (last rows) < 0) \<and>
           (MAX_STEPS_REACHED \<noteq> CONVERGED \<longrightarrow> (\<forall>r\<in>set rows. \<not> row_maxchange r < 0))" ..
  then have ts: "map row_timestep rows = [0..<10]" by (elim conjE)
  then have "length (map row_timestep rows) = length [0..<10::nat]" by (simp only:)
  then have len: "length rows = 10" by simp
  from rows have pl: "plog (finish su s0) = Header header # map Row rows" by (elim conjE)
  from sim pl len ts show ?thesis by (intro exI[of _ "finish su s0"] exI[of _ rows] conjI)
qed

theorem unreachable_tolerance_runs_ten_steps_witness:
  "(\<forall>z T. \<exists>z'. stokes_solve still_env z T = Inr z') \<and>
   (\<forall>d T z. \<exists>r. energy_solve still_env d T z = Inr r) \<and>
   (\<forall>f. 0 \<le> assemble_sq still_env f) \<and>
   (\<exists>s rows. simulation still_env one_node 10 0 = (MAX_STEPS_REACHED, 10, s) \<and>
      plog s = Header header # map Row rows \<and> length rows = 10 \<and>
      map row_timestep rows = [0..<10])"
proof -
  have h1: "\<forall>z T. \<exists>z'. stokes_solve still_env z T = Inr z'"
    and h2: "\<forall>d T z. \<exists>r. energy_solve still_env d T z = Inr r"
    by (simp_all add: still_env_def)
  have h3: "\<forall>f. 0 \<le> assemble_sq still_env f"
    by (simp add: still_assemble_nonneg)
  from unreachable_tolerance_runs_ten_steps[OF h1 h2 h3, of one_node] h1 h2 h3
  show ?thesis by (intro conjI)
qed

text \<open>
  Claim C9. The row logged in pass \<open>i\<close> takes its Nusselt numbers and its average
  temperature from the velocity of pass \<open>i\<close> and from the full temperature of the
  observation point before it: the initial full temperature when \<open>i = 0\<close>, and otherwise
  the one assigned at the end of pass \<open>i - 1\<close>, which is the temperature of that point
  plus the reference temperature.
\<close>


theorem diagnostics_read_previous_full_temperature:
  assumes "Suc i < length (observed env su tol n)"
  shows "\<exists>r. last (plog (observed env su tol n ! Suc i)) = Row r \<and> row_timestep r = i \<and>
           row_nu_top r = Nu_top env (z_fld (observed env su tol n ! Suc i)) (FullT (observed env su tol n ! i)) \<and>
           row_nu_base r = Nu_bottom env (z_fld (observed env su tol n ! Suc i)) (FullT (observed env su tol n ! i)) \<and>
           row_avg_t r = T_avg env (z_fld (observed env su tol n ! Suc i)) (FullT (observed env su tol n ! i)) \<and>
           FullT (observed env su tol n ! i) = field_add (T_fld (observed env su tol n ! i)) (Tbar su) \<and>
           (i = 0 \<longrightarrow> FullT (observed env su tol n ! i) = field_add (T_init su) (Tbar su))"
proof -
  let ?a = "observed env su tol n ! i" and ?b = "observed env su tol n ! Suc i"
  from completed_diagnostics[OF observed_chain[OF assms]] obtain r where
    r: "last (plog ?b) = Row r" "row_timestep r = i"
       "row_nu_top r = Nu_top env (z_fld ?b) (FullT ?a)"
       "row_nu_base r = Nu_bottom env (z_fld ?b) (FullT ?a)"
       "row_avg_t r = T_avg env (z_fld ?b) (FullT ?a)" by blast
  have "?a \<in> set (observed env su tol n)" using assms by simp
  then have f: "FullT ?a = field_add (T_fld ?a) (Tbar su)" by (rule observed_full_temperature)
  have "FullT (observed env su tol n ! 0) = field_add (T_init su) (Tbar su)"
    by (simp add: observed_def initial_def)
  then have z: "i = 0 \<longrightarrow> FullT ?a = field_add (T_init su) (Tbar su)"
    by blast
  from r f z show ?thesis by (intro exI[of _ r] conjI)
qed

theorem diagnostics_read_previous_full_temperature_witness:
  "Suc 1 < length (observed (heating_env 100) one_node 0 2) \<and>
   (\<exists>r. last (plog (observed (heating_env 100) one_node 0 2 ! Suc 1)) = Row r \<and>
        row_timestep r = 1 \<and> row_nu_top r = 3 / 2) \<and>
   Nu_top (heating_env 100) (z_fld (observed (heating_env 100) one_node 0 2 ! Suc 1))
     (FullT (observed (heating_env 100) one_node 0 2 ! 1)) = 3 / 2 \<and>
   Nu_top (heating_env 100) (z_fld (observed (heating_env 100) one_node 0 2 ! Suc 1))
     (FullT (observed (heating_env 100) one_node 0 2 ! Suc 1)) = 5 / 2"
proof -
  have h: "Suc 1 < length (observed (heating_env 100) one_node 0 2)"
    by (simp add: observed_heating_length)
  have old: "Nu_top (heating_env 100) (z_fld (observed (heating_env 100) one_node 0 2 ! Suc 1))
     (FullT (observed (heating_env 100) one_node 0 2 ! 1)) = 3 / 2"
    and new: "Nu_top (heating_env 100) (z_fld (observed (heating_env 100) one_node 0 2 ! Suc 1))
     (FullT (observed (heating_env 100) one_node 0 2 ! Suc 1)) = 5 / 2"
    by (simp_all add: run_defs)
  from diagnostics_read_previous_full_temperature[OF h] obtain r where
    r: "last (plog (observed (heating_env 100) one_node 0 2 ! Suc 1)) = Row r" "row_timestep r = 1"
       "row_nu_top r = Nu_top (heating_env 100) (z_fld (observed (heating_env 100) one_node 0 2 ! Suc 1))
          (FullT (observed (heating_env 100) one_node 0 2 ! 1))"
    by (elim exE conjE)
  from r old have "\<exists>r. last (plog (observed (heating_env 100) one_node 0 2 ! Suc 1)) = Row r \<and>
        row_timestep r = 1 \<and> row_nu_top r = 3 / 2"
    by (intro exI[of _ r]) simp
  with h old new show ?thesis by (intro conjI)
qed

text \<open>
  Claim C10. The log of a run of \<open>k\<close> completed passes is the header followed by exactly
  \<open>k\<close> rows, one for each of the steps 0 to \<open>k - 1\<close>, so \<open>k + 1\<close> lines; when the run
  converged, the row of the converging pass is the last of them.
\<close>


theorem log_header_and_one_line_per_step:
  assumes "simulation env su n tol = (oc, k, s)"
  shows "\<exists>rows. plog s = Header header # map Row rows \<and> length rows = k \<and>
           map row_timestep rows = [0..<k] \<and> length (plog s) = k + 1 \<and>
           (oc = CONVERGED \<longrightarrow> rows \<noteq> [] \<and> row_maxchange (last rows) < tol)"
proof -
  from simulation_log[OF assms] obtain rows where
    rows: "plog s = Header header # map Row rows" "map row_timestep rows = [0..<k]"
      "oc = CONVERGED \<longrightarrow> rows \<noteq> [] \<and> row_maxchange (last rows) < tol" by blast
  from rows(2) have "length rows = k" by (metis length_map length_upt minus_nat.diff_0)
  with rows show ?thesis by (intro exI[of _ rows]) simp
qed

theorem log_header_and_one_line_per_step_witness:
  "\<exists>s. simulation still_env one_node 5 steady_state_tolerance = (CONVERGED, 1, s) \<and>
       length (plog s) = 2"
proof -
  from log_header_and_one_line_per_step[OF still_result]
  have "length (plog (snd (snd (simulation still_env one_node 5 steady_state_tolerance)))) = 1 + 1"
    by (elim exE conjE)
  with still_result show ?thesis
    by (intro exI[of _ "snd (snd (simulation still_env one_node 5 steady_state_tolerance))"]) simp
qed

end
